theory Spec2Isabelle
  imports Complex_Main "HOL-Library.Word" "HOL-Library.Sublist"
begin

section \<open>Bluetooth handsfree audio bridge: the program\<close>

text \<open>
  A shallow embedding of the class \<open>BluetoothAudio\<close>. Python \<open>bytes\<close> on the audio
  socket are lists of 8-bit words; the text of the AT channel is a \<open>string\<close> (characters
  are bytes). Python integers are \<open>int\<close>. Python floats are idealised as \<open>real\<close>; the
  places where that matters are marked. Every \<open>raise\<close> of the source is a value of
  \<open>py_error\<close>.
\<close>

subsection \<open>Exceptions\<close>

datatype py_error =
    BluetoothError         \<comment> \<open>\<open>bluetooth.btcommon.BluetoothError\<close>\<close>
  | StructError            \<comment> \<open>\<open>struct.error\<close>\<close>
  | ZeroDivisionError
  | UnicodeDecodeError
  | AttributeError

subsection \<open>The \<open>struct\<close> formats used by the codec\<close>

type_synonym byte = "8 word"

text \<open>\<open>struct.pack('<h', v)\<close>: two's complement, low byte first; out of range raises.\<close>

definition pack_h :: "int \<Rightarrow> py_error + byte list" where
  "pack_h v =
     (if - 32768 \<le> v \<and> v \<le> 32767
      then Inr [word_of_int v, word_of_int (v div 256)]
      else Inl StructError)"

text \<open>\<open>struct.pack('<hh', v, w)\<close>.\<close>

definition pack_hh :: "int \<Rightarrow> int \<Rightarrow> py_error + byte list" where
  "pack_hh v w =
     (case pack_h v of
        Inl e \<Rightarrow> Inl e
      | Inr a \<Rightarrow> (case pack_h w of Inl e \<Rightarrow> Inl e | Inr b \<Rightarrow> Inr (a @ b)))"

text \<open>\<open>struct.pack('b', v)\<close>: one signed byte; out of range raises.\<close>

definition pack_b :: "int \<Rightarrow> py_error + byte list" where
  "pack_b v = (if - 128 \<le> v \<and> v \<le> 127 then Inr [word_of_int v] else Inl StructError)"

text \<open>One \<open>'<h'\<close> field of \<open>struct.unpack\<close>: the signed value of two bytes, low byte first.\<close>

definition unpack_h :: "byte \<Rightarrow> byte \<Rightarrow> int" where
  "unpack_h lo hi =
     (let u = uint lo + 256 * uint hi in if 32768 \<le> u then u - 65536 else u)"

subsection \<open>Python's numeric built-ins\<close>

text \<open>\<open>int(x)\<close> of a float truncates towards zero.\<close>

definition py_int :: "real \<Rightarrow> int" where
  "py_int x = (if 0 \<le> x then \<lfloor>x\<rfloor> else \<lceil>x\<rceil>)"

text \<open>\<open>round(x)\<close> of a float rounds to the nearest integer, a tie going to the even one.\<close>

definition py_round :: "real \<Rightarrow> int" where
  "py_round x =
     (let f = \<lfloor>x\<rfloor>; d = x - of_int f
      in if d < 1 / 2 then f
         else if 1 / 2 < d then f + 1
         else if even f then f else f + 1)"

subsection \<open>Sample-format conversion\<close>

text \<open>
  The conversion loop of \<open>read\<close> (8 kHz signed 8 bit to 16 kHz signed 16 bit LE):
  \<^verbatim>\<open>
  for v in data_8s8m:
      if v > 127: v = v - 256
      v = v * 256
      snd += struct.pack('<hh', v, v)
  \<close>
\<close>

fun upsample :: "byte list \<Rightarrow> py_error + byte list" where
  "upsample [] = Inr []"
| "upsample (b # bs) =
     (let v = uint b;
          v = (if 127 < v then v - 256 else v);
          v = v * 256
      in case pack_hh v v of
           Inl e \<Rightarrow> Inl e
         | Inr p \<Rightarrow> (case upsample bs of Inl e \<Rightarrow> Inl e | Inr rest \<Rightarrow> Inr (p @ rest)))"

text \<open>
  The conversion loop of \<open>write\<close> (16 kHz signed 16 bit LE to 8 kHz signed 8 bit):
  \<^verbatim>\<open>
  for i in range(0, len(data), 4):
      val1, val2 = struct.unpack_from('<hh', data, i)
      val = round((val1 + val2) / 512)
      data_8s8m += struct.pack('b', val)
  \<close>
  \<open>range(0, len(data), 4)\<close> also visits the start of a trailing group of one to three
  bytes, where \<open>unpack_from\<close> raises \<open>struct.error\<close>. The quotient is a float; it is
  exact, the numerator being an integer below \<open>2^17\<close> in size and the divisor a power of two.
\<close>

fun downsample :: "byte list \<Rightarrow> py_error + byte list" where
  "downsample [] = Inr []"
| "downsample (b0 # b1 # b2 # b3 # rest) =
     (let val1 = unpack_h b0 b1;
          val2 = unpack_h b2 b3;
          val = py_round (real_of_int (val1 + val2) / 512)
      in case pack_b val of
           Inl e \<Rightarrow> Inl e
         | Inr p \<Rightarrow> (case downsample rest of Inl e \<Rightarrow> Inl e | Inr r \<Rightarrow> Inr (p @ r)))"
| "downsample _ = Inl StructError"

subsection \<open>The object's state\<close>

text \<open>
  A connected SCO socket is known by the MTU its \<open>SCO_OPTIONS\<close> report (an unsigned
  16-bit field, read with \<open>struct.unpack('H', opt)\<close>); a connected RFCOMM socket by its
  channel.
\<close>

datatype sco_socket = SCO "16 word"

datatype rfcomm_socket = RFCOMM int

text \<open>What the object does to the outside world, in order.\<close>

datatype event =
    Sleep                  \<comment> \<open>\<open>time.sleep(self.HFP_TIMEOUT)\<close>\<close>
  | ConnectRFCOMM int      \<comment> \<open>\<open>hfp.connect((self.addr, self.channel))\<close>\<close>
  | ConnectSCO             \<comment> \<open>\<open>audio.connect((self.addr,))\<close>\<close>
  | SendHFP string         \<comment> \<open>\<open>self.hfp.send(data)\<close>, accepted\<close>
  | Warning                \<comment> \<open>the warning of line 89\<close>
  | CloseSCO               \<comment> \<open>\<open>self.audio.close()\<close>\<close>
  | CloseHFP               \<comment> \<open>\<open>self.hfp.close()\<close>\<close>

text \<open>
  The fields of \<open>self\<close>. \<open>pt\<close> is the worker thread's handle (\<open>False\<close>: \<open>None\<close>);
  \<open>sco_payload\<close> does not exist before the first successful audio connect (\<open>None\<close>:
  reading it raises \<open>AttributeError\<close>); \<open>channel = None\<close> is Python's \<open>None\<close>.
\<close>

record bt_audio =
  pt :: bool
  audio :: "sco_socket option"
  hfp :: "rfcomm_socket option"
  channel :: "int option"
  sco_payload :: "int option"
  trace :: "event list"

definition emit :: "event \<Rightarrow> bt_audio \<Rightarrow> bt_audio" where
  "emit ev st = st\<lparr>trace := trace st @ [ev]\<rparr>"

definition SCO_HEADERS_SIZE :: int where
  "SCO_HEADERS_SIZE = 16"

definition HFP_CONNECT_AUDIO_TIMEOUT :: real where
  "HFP_CONNECT_AUDIO_TIMEOUT = 10.0"

definition AUDIO_8KHZ_SIGNED_8BIT_MONO :: int where
  "AUDIO_8KHZ_SIGNED_8BIT_MONO = 0"

definition AUDIO_16KHZ_SIGNED_16BIT_LE_MONO :: int where
  "AUDIO_16KHZ_SIGNED_16BIT_LE_MONO = 1"


subsection \<open>\<open>_connect_audio\<close>\<close>

text \<open>
  What \<open>audio.connect\<close> does is the environment's choice: it raises \<open>BluetoothError\<close>, or
  it succeeds and \<open>getsockopt\<close> then reports an MTU.
\<close>

datatype sco_outcome = ScoRefused | ScoConnected "16 word"

definition connect_audio :: "sco_outcome \<Rightarrow> bt_audio \<Rightarrow> bt_audio" where
  "connect_audio r st =
     (let st = emit ConnectSCO st
      in case r of
           ScoRefused \<Rightarrow> st
         | ScoConnected mtu \<Rightarrow>
             st\<lparr>audio := Some (SCO mtu), sco_payload := Some (uint mtu - SCO_HEADERS_SIZE)\<rparr>)"

subsection \<open>\<open>_find_channel\<close>\<close>

text \<open>
  Modelled from the spec: the service-class identifiers \<open>bluetooth.HANDSFREE_CLASS\<close>,
  \<open>bluetooth.HEADSET_CLASS\<close> and \<open>bluetooth.GENERIC_AUDIO_CLASS\<close> belong to the host
  stack's library; the spec names the three classes, and the values are the 16-bit UUIDs
  assigned to them. The theorems use only that they differ.
\<close>

definition HANDSFREE_CLASS :: string where
  "HANDSFREE_CLASS = ''111E''"

definition HEADSET_CLASS :: string where
  "HEADSET_CLASS = ''1108''"

definition GENERIC_AUDIO_CLASS :: string where
  "GENERIC_AUDIO_CLASS = ''1203''"

text \<open>\<open>str.lower()\<close>, on ASCII.\<close>

definition lower_char :: "char \<Rightarrow> char" where
  "lower_char c =
     (case map_of (zip ''ABCDEFGHIJKLMNOPQRSTUVWXYZ'' ''abcdefghijklmnopqrstuvwxyz'') c of
        None \<Rightarrow> c
      | Some l \<Rightarrow> l)"

definition lower :: "string \<Rightarrow> string" where
  "lower s = map lower_char s"

text \<open>A service record: \<open>svc["service-classes"]\<close> and \<open>svc["port"]\<close>.\<close>

type_synonym service = "string list \<times> int"

text \<open>Python's truth value of \<open>None\<close> or an integer.\<close>

definition truthy :: "int option \<Rightarrow> bool" where
  "truthy v = (case v of None \<Rightarrow> False | Some n \<Rightarrow> n \<noteq> 0)"

text \<open>
  The inner loop over one record's classes: \<open>Inl port\<close> is the \<open>return\<close> of line 132,
  \<open>Inr\<close> carries \<open>(hsp_channel, generic_channel)\<close> on.
\<close>

fun scan_classes ::
  "int \<Rightarrow> string list \<Rightarrow> int option \<times> int option \<Rightarrow> int + int option \<times> int option"
where
  "scan_classes port [] acc = Inr acc"
| "scan_classes port (c # cs) (hsp_channel, generic_channel) =
     (if lower HANDSFREE_CLASS = lower c then Inl port
      else if lower HEADSET_CLASS = lower c
        then scan_classes port cs (Some port, generic_channel)
      else if lower GENERIC_AUDIO_CLASS = lower c
        then scan_classes port cs (hsp_channel, Some port)
      else scan_classes port cs (hsp_channel, generic_channel))"

fun scan_services :: "service list \<Rightarrow> int option \<times> int option \<Rightarrow> int option" where
  "scan_services [] (hsp_channel, generic_channel) =
     (if truthy hsp_channel then hsp_channel else generic_channel)"
| "scan_services (svc # services) acc =
     (case scan_classes (snd svc) (fst svc) acc of
        Inl port \<Rightarrow> Some port
      | Inr acc' \<Rightarrow> scan_services services acc')"

text \<open>The value \<open>_find_channel\<close> leaves in \<open>self.channel\<close>.\<close>

definition find_channel :: "service list \<Rightarrow> int option" where
  "find_channel services = scan_services services (None, None)"

subsection \<open>The AT channel\<close>

definition CR :: string where
  "CR = [CHR 0x0D]"

definition CRLF :: string where
  "CRLF = [CHR 0x0D, CHR 0x0A]"

text \<open>The value of a byte lies between two bounds.\<close>

definition byte_in :: "nat \<Rightarrow> nat \<Rightarrow> char \<Rightarrow> bool" where
  "byte_in lo hi c = (lo \<le> of_char c \<and> (of_char c :: nat) \<le> hi)"

text \<open>
  \<open>d.decode('utf8')\<close> succeeds: the well-formed byte sequences of UTF-8 (no overlong
  form, no surrogate, nothing above U+10FFFF). The arguments of \<open>logging.debug\<close> are
  evaluated whatever the log level, so \<open>_read_at\<close> and \<open>_send\<close> decode every chunk.
\<close>

fun utf8_valid :: "string \<Rightarrow> bool" where
  "utf8_valid [] = True"
| "utf8_valid (c # cs) =
     (if byte_in 0x00 0x7F c then utf8_valid cs
      else if byte_in 0xC2 0xDF c then
        (case cs of
           c1 # r \<Rightarrow> byte_in 0x80 0xBF c1 \<and> utf8_valid r
         | _ \<Rightarrow> False)
      else if byte_in 0xE0 0xEF c then
        (case cs of
           c1 # c2 # r \<Rightarrow>
             (if byte_in 0xE0 0xE0 c then byte_in 0xA0 0xBF c1
              else if byte_in 0xED 0xED c then byte_in 0x80 0x9F c1
              else byte_in 0x80 0xBF c1)
             \<and> byte_in 0x80 0xBF c2 \<and> utf8_valid r
         | _ \<Rightarrow> False)
      else if byte_in 0xF0 0xF4 c then
        (case cs of
           c1 # c2 # c3 # r \<Rightarrow>
             (if byte_in 0xF0 0xF0 c then byte_in 0x90 0xBF c1
              else if byte_in 0xF4 0xF4 c then byte_in 0x80 0x8F c1
              else byte_in 0x80 0xBF c1)
             \<and> byte_in 0x80 0xBF c2 \<and> byte_in 0x80 0xBF c3 \<and> utf8_valid r
         | _ \<Rightarrow> False)
      else False)"

text \<open>\<open>pat in data\<close> on bytes: \<open>pat\<close> occurs as a contiguous run.\<close>

fun bytes_in :: "string \<Rightarrow> string \<Rightarrow> bool" where
  "bytes_in pat [] = (pat = [])"
| "bytes_in pat (c # cs) = (prefix pat (c # cs) \<or> bytes_in pat cs)"

text \<open>
  What \<open>self.hfp.recv(1024)\<close> does: it returns a chunk, or raises \<open>BluetoothError\<close>
  whose text is \<open>'timed out'\<close>, or raises \<open>BluetoothError\<close> with any other text.
\<close>

datatype at_recv = Received string | TimedOut | RecvFailed

definition read_at :: "at_recv \<Rightarrow> py_error + string option" where
  "read_at r =
     (case r of
        Received d \<Rightarrow> if utf8_valid d then Inr (Some d) else Inl UnicodeDecodeError
      | TimedOut \<Rightarrow> Inr None
      | RecvFailed \<Rightarrow> Inl BluetoothError)"

text \<open>
  A step that may raise returns the exception with the state it left behind. The
  control socket accepts a number of further \<open>send\<close> calls, known to the environment,
  and raises \<open>BluetoothError\<close> at the next one.
\<close>

definition and_then :: "'e + 'a \<Rightarrow> ('a \<Rightarrow> 'e + 'b) \<Rightarrow> 'e + 'b" where
  "and_then m f = (case m of Inl e \<Rightarrow> Inl e | Inr x \<Rightarrow> f x)"

definition send :: "string \<Rightarrow> nat \<times> bt_audio \<Rightarrow> py_error \<times> bt_audio + nat \<times> bt_audio" where
  "send data ctx =
     (case ctx of (accepted, st) \<Rightarrow>
        if \<not> utf8_valid data then Inl (UnicodeDecodeError, st)
        else (case accepted of
                0 \<Rightarrow> Inl (BluetoothError, st)
              | Suc k \<Rightarrow> Inr (k, emit (SendHFP data) st)))"

definition send_at :: "string \<Rightarrow> nat \<times> bt_audio \<Rightarrow> py_error \<times> bt_audio + nat \<times> bt_audio" where
  "send_at data ctx = send (CRLF @ data @ CRLF) ctx"

definition send_ok :: "nat \<times> bt_audio \<Rightarrow> py_error \<times> bt_audio + nat \<times> bt_audio" where
  "send_ok ctx = send_at ''OK'' ctx"

definition send_error :: "nat \<times> bt_audio \<Rightarrow> py_error \<times> bt_audio + nat \<times> bt_audio" where
  "send_error ctx = send_at ''ERROR'' ctx"

text \<open>The answer to \<open>AT+CIND=?\<close>, which holds double quotes.\<close>

definition CIND_TEST :: string where
  "CIND_TEST =
     ''+CIND: ('' @ [CHR 0x22] @ ''service'' @ [CHR 0x22] @ '',(0,1)),(''
       @ [CHR 0x22] @ ''call'' @ [CHR 0x22] @ '',(0,1))''"

text \<open>
  The \<open>if\<close>/\<open>elif\<close> chain of lines 66 to 84 on a non-empty chunk. The result carries
  \<open>sevice_notice\<close> on; \<open>sco\<close> is what the audio connect of line 79 meets.
\<close>

definition dispatch ::
  "string \<Rightarrow> sco_outcome \<Rightarrow> bool \<Rightarrow> nat \<times> bt_audio
     \<Rightarrow> py_error \<times> bt_audio + bool \<times> nat \<times> bt_audio"
where
  "dispatch data sco sevice_notice ctx =
     (if bytes_in ''AT+BRSF='' data then
        and_then (and_then (send_at ''+BRSF: 0'' ctx) send_ok) (\<lambda>ctx. Inr (sevice_notice, ctx))
      else if ''AT+CIND=?'' @ CR = data then
        and_then (and_then (send_at CIND_TEST ctx) send_ok) (\<lambda>ctx. Inr (sevice_notice, ctx))
      else if ''AT+CIND?'' @ CR = data then
        and_then (and_then (send_at ''+CIND: 1,0'' ctx) send_ok) (\<lambda>ctx. Inr (sevice_notice, ctx))
      else if bytes_in ''AT+CMER='' data then
        and_then (send_ok ctx) (\<lambda>(accepted, st). Inr (False, accepted, connect_audio sco st))
      else if ''AT+CHLD=?'' @ CR = data then
        and_then (and_then (send_at ''+CHLD: 0'' ctx) send_ok) (\<lambda>ctx. Inr (sevice_notice, ctx))
      else
        and_then (send_error ctx) (\<lambda>ctx. Inr (sevice_notice, ctx)))"

text \<open>What one turn of the loop of \<open>_parse_channel\<close> meets.\<close>

record at_env =
  recv_result :: at_recv        \<comment> \<open>what \<open>self.hfp.recv(1024)\<close> does\<close>
  sends_accepted :: nat         \<comment> \<open>the \<open>send\<close> calls the control socket still accepts\<close>
  clock :: real                 \<comment> \<open>\<open>time.time()\<close> at line 87\<close>
  sco_at_cmer :: sco_outcome    \<comment> \<open>what the audio connect of line 79 meets\<close>
  sco_at_grace :: sco_outcome   \<comment> \<open>what the audio connect of line 91 meets\<close>

text \<open>Lines 86 to 91: the audio connect that does not wait for \<open>AT+CMER\<close>.\<close>

definition try_audio_anyway ::
  "at_env \<Rightarrow> real \<Rightarrow> bool \<Rightarrow> bt_audio \<Rightarrow> bool \<times> bt_audio"
where
  "try_audio_anyway env audio_time sevice_notice st =
     (if audio st = None then
        (if audio_time < clock env then
           (let (sevice_notice, st) =
                  (if sevice_notice then (False, emit Warning st) else (sevice_notice, st))
            in (sevice_notice, connect_audio (sco_at_grace env) st))
         else (sevice_notice, st))
      else (sevice_notice, st))"

text \<open>One turn of the \<open>while self.pt\<close> loop of \<open>_parse_channel\<close> (lines 64 to 91).\<close>

definition parse_iteration ::
  "at_env \<Rightarrow> real \<Rightarrow> bool \<Rightarrow> bt_audio \<Rightarrow> py_error \<times> bt_audio + bool \<times> bt_audio"
where
  "parse_iteration env audio_time sevice_notice st =
     (case read_at (recv_result env) of
        Inl e \<Rightarrow> Inl (e, st)
      | Inr data \<Rightarrow>
          and_then
            (case data of
               None \<Rightarrow> Inr (sevice_notice, sends_accepted env, st)
             | Some d \<Rightarrow>
                 if d \<noteq> [] then dispatch d (sco_at_cmer env) sevice_notice (sends_accepted env, st)
                 else Inr (sevice_notice, sends_accepted env, st))
            (\<lambda>(sevice_notice, accepted, st).
               Inr (try_audio_anyway env audio_time sevice_notice st)))"

text \<open>
  The loop: one environment for each turn it makes before it sees \<open>self.pt\<close> cleared
  by \<open>close\<close>.
\<close>

fun parse_loop ::
  "at_env list \<Rightarrow> real \<Rightarrow> bool \<Rightarrow> bt_audio \<Rightarrow> py_error \<times> bt_audio + bt_audio"
where
  "parse_loop [] audio_time sevice_notice st = Inr st"
| "parse_loop (env # envs) audio_time sevice_notice st =
     (case parse_iteration env audio_time sevice_notice st of
        Inl raised \<Rightarrow> Inl raised
      | Inr (sevice_notice', st') \<Rightarrow> parse_loop envs audio_time sevice_notice' st')"

text \<open>\<open>_parse_channel\<close>; \<open>now\<close> is \<open>time.time()\<close> at line 61.\<close>

definition parse_channel ::
  "real \<Rightarrow> at_env list \<Rightarrow> bt_audio \<Rightarrow> py_error \<times> bt_audio + bt_audio"
where
  "parse_channel now envs st = parse_loop envs (now + HFP_CONNECT_AUDIO_TIMEOUT) True st"

subsection \<open>The supervisor\<close>

text \<open>\<open>_connect_service_level\<close>, with \<open>self.channel = ch\<close>; the peer accepts or not.\<close>

definition connect_service_level :: "bool \<Rightarrow> int \<Rightarrow> bt_audio \<Rightarrow> bt_audio" where
  "connect_service_level accepted ch st =
     (let st = emit (ConnectRFCOMM ch) st
      in if accepted then st\<lparr>hfp := Some (RFCOMM ch)\<rparr> else st)"

definition cleanup :: "bt_audio \<Rightarrow> bt_audio" where
  "cleanup st =
     (let st = (if audio st \<noteq> None then emit CloseSCO st else st);
          st = (if hfp st \<noteq> None then emit CloseHFP st else st)
      in st\<lparr>hfp := None, audio := None\<rparr>)"

text \<open>What one turn of \<open>_worker_loop\<close> meets.\<close>

record worker_env =
  services :: "service list"    \<comment> \<open>the result of \<open>bluetooth.find_service\<close>\<close>
  rfcomm_accepted :: bool       \<comment> \<open>whether \<open>hfp.connect\<close> succeeds\<close>
  session_start :: real         \<comment> \<open>\<open>time.time()\<close> at line 61\<close>
  at_turns :: "at_env list"     \<comment> \<open>the turns of the loop of \<open>_parse_channel\<close>\<close>

text \<open>
  One turn of the \<open>while self.pt\<close> loop of \<open>_worker_loop\<close> (lines 44 to 58). Only
  \<open>BluetoothError\<close> is caught; any other exception leaves the loop.
\<close>

definition worker_iteration :: "worker_env \<Rightarrow> bt_audio \<Rightarrow> py_error \<times> bt_audio + bt_audio" where
  "worker_iteration env st =
     (let st = st\<lparr>channel := find_channel (services env)\<rparr>
      in case channel st of
           None \<Rightarrow> Inr (emit Sleep st)
         | Some ch \<Rightarrow>
             if ch = 0 then Inr (emit Sleep st)
             else
               (let st = connect_service_level (rfcomm_accepted env) ch st
                in if hfp st = None then Inr (emit Sleep st)
                   else
                     (case parse_channel (session_start env) (at_turns env) st of
                        Inl (e, st') \<Rightarrow>
                          if e = BluetoothError then Inr (cleanup (emit Sleep st'))
                          else Inl (e, st')
                      | Inr st' \<Rightarrow> Inr (cleanup st'))))"

fun worker_loop :: "worker_env list \<Rightarrow> bt_audio \<Rightarrow> py_error \<times> bt_audio + bt_audio" where
  "worker_loop [] st = Inr st"
| "worker_loop (env # envs) st =
     (case worker_iteration env st of
        Inl raised \<Rightarrow> Inl raised
      | Inr st' \<Rightarrow> worker_loop envs st')"

subsection \<open>The public API\<close>


text \<open>
  \<open>close\<close>: \<open>t = self.pt; self.pt = None; t.join(); self._cleanup()\<close>. The state is the
  one the worker has left when \<open>join\<close> returns; with \<open>self.pt\<close> already \<open>None\<close>,
  \<open>t.join\<close> is an attribute of \<open>None\<close>.
\<close>

definition close :: "bt_audio \<Rightarrow> py_error + bt_audio" where
  "close st = (if pt st then Inr (cleanup (st\<lparr>pt := False\<rparr>)) else Inl AttributeError)"

text \<open>
  What the audio socket does: \<open>recv\<close> returns bytes or raises \<open>BluetoothError\<close>;
  \<open>send\<close> returns the number of bytes it took or raises \<open>BluetoothError\<close>.
\<close>

datatype sco_recv = ScoData "byte list" | ScoRecvFailed

datatype sco_send = Sent int | ScoSendFailed

definition read :: "bt_audio \<Rightarrow> int \<Rightarrow> sco_recv \<Rightarrow> py_error + byte list option" where
  "read st format r =
     (if audio st = None then Inr None
      else case sco_payload st of
             None \<Rightarrow> Inl AttributeError
           | Some payload \<Rightarrow>
               (case r of
                  ScoRecvFailed \<Rightarrow> Inr None
                | ScoData data_8s8m \<Rightarrow>
                    if format = AUDIO_8KHZ_SIGNED_8BIT_MONO then Inr (Some data_8s8m)
                    else (case upsample data_8s8m of
                            Inl e \<Rightarrow> Inl e
                          | Inr snd16 \<Rightarrow> Inr (Some snd16))))"

text \<open>A slice \<open>xs[a:b]\<close>: an index below zero counts from the end, and both are clipped.\<close>

definition slice_index :: "int \<Rightarrow> int \<Rightarrow> nat" where
  "slice_index n i = nat (if i < 0 then max 0 (n + i) else min n i)"

definition py_slice :: "'a list \<Rightarrow> int \<Rightarrow> int \<Rightarrow> 'a list" where
  "py_slice xs a b =
     (let n = int (length xs); lo = slice_index n a; hi = slice_index n b
      in take (hi - lo) (drop lo xs))"

text \<open>Lines 227 to 229: the next frame, padded with zero bytes to \<open>sco_payload\<close>.\<close>

definition frame :: "int \<Rightarrow> byte list \<Rightarrow> int \<Rightarrow> byte list" where
  "frame payload data sent =
     (let ts = py_slice data sent (sent + payload)
      in if int (length ts) < payload
         then ts @ replicate (nat (payload - int (length ts))) 0
         else ts)"

text \<open>
  The loop of lines 225 to 231, with the \<open>except\<close> of line 232. It consumes one answer
  of the socket for each \<open>send\<close>; \<open>None\<close> says that the answers ran out with data left
  (a socket that keeps taking nothing keeps the loop running). The result holds the
  frames the socket took.
\<close>

fun send_frames ::
  "int option \<Rightarrow> byte list \<Rightarrow> sco_send list \<Rightarrow> int \<Rightarrow> byte list list
     \<Rightarrow> (py_error + bool \<times> byte list list) option"
where
  "send_frames payload data [] sent frames =
     (if sent < int (length data) then
        (case payload of None \<Rightarrow> Some (Inl AttributeError) | Some p \<Rightarrow> None)
      else Some (Inr (True, frames)))"
| "send_frames payload data (r # rs) sent frames =
     (if sent < int (length data) then
        (case payload of
           None \<Rightarrow> Some (Inl AttributeError)
         | Some p \<Rightarrow>
             (case r of
                ScoSendFailed \<Rightarrow> Some (Inr (False, frames))
              | Sent n \<Rightarrow> send_frames payload data rs (sent + n) (frames @ [frame p data sent])))
      else Some (Inr (True, frames)))"

definition write_audio ::
  "bt_audio \<Rightarrow> byte list \<Rightarrow> int \<Rightarrow> sco_send list \<Rightarrow> (py_error + bool \<times> byte list list) option"
where
  "write_audio st data format sends =
     (if audio st = None then Some (Inr (False, []))
      else case (if format = AUDIO_8KHZ_SIGNED_8BIT_MONO then Inr data else downsample data) of
             Inl e \<Rightarrow> Some (Inl e)
           | Inr data_8s8m \<Rightarrow> send_frames (sco_payload st) data_8s8m sends 0 [])"

text \<open>
  The loop of \<open>beep\<close> (lines 243 to 245) over \<open>range(0, length)\<close>. \<open>i % period\<close> is an
  integer remainder and raises at \<open>period = 0\<close>. Float arithmetic and \<open>math.sin\<close> are
  idealised as real arithmetic and \<open>sin\<close>.
\<close>

fun tone :: "int \<Rightarrow> real \<Rightarrow> nat list \<Rightarrow> py_error + byte list" where
  "tone period amplitude [] = Inr []"
| "tone period amplitude (i # is) =
     (if period = 0 then Inl ZeroDivisionError
      else
        case pack_h (py_int (32767.0 * amplitude
                      * sin (2.0 * pi * real_of_int (int i mod period) / real_of_int period))) of
          Inl e \<Rightarrow> Inl e
        | Inr p \<Rightarrow> (case tone period amplitude is of Inl e \<Rightarrow> Inl e | Inr rest \<Rightarrow> Inr (p @ rest)))"

definition beep_period :: "real \<Rightarrow> int" where
  "beep_period frequency = py_int (8000 / frequency)"

definition beep_length :: "real \<Rightarrow> int" where
  "beep_length length_ms = py_int (8000 * length_ms / 1000)"

text \<open>
  \<open>beep\<close>: \<open>8000 / frequency\<close> raises at \<open>frequency = 0\<close>; the tone goes to \<open>write\<close>
  with the default format.
\<close>

definition beep ::
  "bt_audio \<Rightarrow> real \<Rightarrow> real \<Rightarrow> real \<Rightarrow> sco_send list
     \<Rightarrow> (py_error + bool \<times> byte list list) option"
where
  "beep st length_ms frequency amplitude sends =
     (if frequency = 0 then Some (Inl ZeroDivisionError)
      else
        (let period = beep_period frequency;
             length = beep_length length_ms
         in case tone period amplitude [0..<nat length] of
              Inl e \<Rightarrow> Some (Inl e)
            | Inr snd16 \<Rightarrow> write_audio st snd16 AUDIO_8KHZ_SIGNED_8BIT_MONO sends))"

text \<open>
  The object after \<open>__init__\<close>: no socket, the worker thread started; \<open>channel\<close> and
  \<open>sco_payload\<close> are not yet assigned.
\<close>

definition init_state :: bt_audio where
  "init_state =
     \<lparr>pt = True, audio = None, hfp = None, channel = None, sco_payload = None, trace = []\<rparr>"

section \<open>Notions used in the statements\<close>

subsection \<open>Samples\<close>

text \<open>
  The sum \<open>v1 + v2\<close> of the \<open>k\<close>-th 4-byte group of an input in the extended format,
  read as two little-endian signed 16-bit samples.
\<close>

definition group_sum :: "byte list \<Rightarrow> nat \<Rightarrow> int" where
  "group_sum data k =
     unpack_h (data ! (4 * k)) (data ! (4 * k + 1))
       + unpack_h (data ! (4 * k + 2)) (data ! (4 * k + 3))"


subsection \<open>Service records\<close>

text \<open>A service record advertises the class \<open>K\<close>, compared as \<open>_find_channel\<close> does.\<close>

definition has_class :: "string \<Rightarrow> service \<Rightarrow> bool" where
  "has_class K svc = (lower K \<in> set (map lower (fst svc)))"

text \<open>The port remembered for class \<open>K\<close> after the records \<open>svcs\<close>, starting from \<open>acc\<close>.\<close>

definition remembered :: "string \<Rightarrow> service list \<Rightarrow> int option \<Rightarrow> int option" where
  "remembered K svcs acc =
     (if filter (has_class K) svcs = [] then acc
      else Some (snd (last (filter (has_class K) svcs))))"

text \<open>
  Channel resolution in the specification's words: the first Handsfree record's channel,
  else the channel remembered for a Headset record, else the one remembered for a
  GenericAudio record, else no channel.
\<close>

definition spec_channel :: "service list \<Rightarrow> int option" where
  "spec_channel svcs =
     (case find (has_class HANDSFREE_CLASS) svcs of
        Some svc \<Rightarrow> Some (snd svc)
      | None \<Rightarrow>
          (let hs = filter (has_class HEADSET_CLASS) svcs;
               gs = filter (has_class GENERIC_AUDIO_CLASS) svcs
           in if hs \<noteq> [] then Some (snd (last hs))
              else if gs \<noteq> [] then Some (snd (last gs))
              else None))"

subsection \<open>Traces\<close>

text \<open>The channels of the control connections attempted in a trace, in order.\<close>

fun rfcomm_channels :: "event list \<Rightarrow> int list" where
  "rfcomm_channels [] = []"
| "rfcomm_channels (ConnectRFCOMM ch # evs) = ch # rfcomm_channels evs"
| "rfcomm_channels (ev # evs) = rfcomm_channels evs"


subsection \<open>The dispatch table\<close>



subsection \<open>The session invariant\<close>

text \<open>
  An audio session comes with its payload size: whenever \<open>self.audio\<close> holds a socket
  that negotiated \<open>mtu\<close>, \<open>self.sco_payload\<close> is \<open>mtu - 16\<close>.
\<close>

definition session_inv :: "bt_audio \<Rightarrow> bool" where
  "session_inv st =
     (case audio st of
        None \<Rightarrow> True
      | Some (SCO mtu) \<Rightarrow> sco_payload st = Some (uint mtu - SCO_HEADERS_SIZE))"

section \<open>Properties\<close>

subsection \<open>Bytes and signed values\<close>
lemma uint_byte_bound: "uint (b :: byte) < 256"
  using uint_lt2p [of b] by simp

lemma signed_mod_256:
  fixes u :: int
  assumes "0 \<le> u" "u < 256"
  shows "(u + 128) mod 256 - 128 = (if 127 < u then u - 256 else u)"
proof (cases "127 < u")
  case True
  have "u + 128 = (u - 128) + 256" by simp
  then have "(u + 128) mod 256 = ((u - 128) + 256) mod 256" by (rule arg_cong)
  also have "\<dots> = (u - 128) mod 256" by (simp only: mod_add_self2)
  also have "\<dots> = u - 128" using True assms by (intro mod_pos_pos_trivial) simp_all
  finally show ?thesis using True by simp
next
  case False
  have "(u + 128) mod 256 = u + 128"
    using False assms by (intro mod_pos_pos_trivial) simp_all
  then show ?thesis using False by simp
qed

lemma sint_byte: "sint (b :: byte) = (if 127 < uint b then uint b - 256 else uint b)"
proof -
  have s: "sint b = (uint b + 128) mod 256 - 128"
    by (simp add: sint_uint signed_take_bit_eq_take_bit_shift take_bit_eq_mod)
  show ?thesis
    unfolding s by (rule signed_mod_256) (simp_all add: uint_byte_bound)
qed

lemma word_of_int_mult_256: "(word_of_int (v * 256) :: byte) = 0"
  by transfer (simp add: take_bit_eq_mod)

lemma word_of_int_uint_minus_256: "(word_of_int (uint b - 256) :: byte) = b"
proof -
  have "(word_of_int (uint b - 256) :: byte) = word_of_int (uint b)"
    by (simp add: word_of_int_eq_iff take_bit_eq_mod)
  then show ?thesis by (simp add: word_of_int_uint)
qed

lemma signed_range:
  fixes u :: int
  assumes "0 \<le> u" "u < 256"
  shows "- 128 \<le> (if 127 < u then u - 256 else u) \<and> (if 127 < u then u - 256 else u) \<le> 127"
  using assms by auto

lemma pack_h_scaled: "pack_h ((if 127 < uint b then uint b - 256 else uint b) * 256) = Inr [0, b]"
proof -
  define v where "v = (if 127 < uint b then uint b - 256 else uint b)"
  have r: "- 128 \<le> v \<and> v \<le> 127"
    unfolding v_def by (rule signed_range) (simp_all add: uint_byte_bound)
  have wv: "(word_of_int v :: byte) = b" by (simp add: v_def word_of_int_uint_minus_256 word_of_int_uint)
  have "pack_h (v * 256) = Inr [word_of_int (v * 256), word_of_int (v * 256 div 256)]"
    using r unfolding pack_h_def by simp
  then have "pack_h (v * 256) = Inr [0, b]" by (simp only: word_of_int_mult_256 wv nonzero_mult_div_cancel_right)
  then show ?thesis by (simp only: v_def)
qed

lemma unpack_h_scaled: "unpack_h 0 b = sint b * 256"
proof -
  define u where "u = uint b"
  have b: "0 \<le> u" "u < 256" by (simp_all add: u_def uint_byte_bound)
  have "(let w = 256 * u in if 32768 \<le> w then w - 65536 else w) = (if 127 < u then u - 256 else u) * 256"
    using b by (auto simp: Let_def)
  then show ?thesis by (simp add: unpack_h_def sint_byte u_def)
qed

lemma upsample_eq: "upsample data = Inr (concat (map (\<lambda>b. [0, b, 0, b]) data))"
  by (induction data) (simp_all add: pack_hh_def pack_h_scaled)


subsection \<open>Groups of four bytes\<close>

lemma nth_concat4:
  assumes "i < length xs"
  shows "concat (map (\<lambda>b. [f0 b, f1 b, f2 b, f3 b]) xs) ! (4 * i) = f0 (xs ! i)
   \<and> concat (map (\<lambda>b. [f0 b, f1 b, f2 b, f3 b]) xs) ! (4 * i + 1) = f1 (xs ! i)
   \<and> concat (map (\<lambda>b. [f0 b, f1 b, f2 b, f3 b]) xs) ! (4 * i + 2) = f2 (xs ! i)
   \<and> concat (map (\<lambda>b. [f0 b, f1 b, f2 b, f3 b]) xs) ! (4 * i + 3) = f3 (xs ! i)"
  using assms
proof (induction xs arbitrary: i)
  case Nil
  then show ?case by simp
next
  case (Cons x xs)
  show ?case
  proof (cases i)
    case 0
    then show ?thesis by simp
  next
    case (Suc j)
    with Cons.prems have "j < length xs" by simp
    have e: "4 * i = Suc (Suc (Suc (Suc (4 * j))))" using Suc by simp
    from Cons.IH [OF \<open>j < length xs\<close>] show ?thesis unfolding e using Suc by (simp add: add.commute)
  qed
qed

lemma length_concat4: "length (concat (map (\<lambda>b. [f0 b, f1 b, f2 b, f3 b]) xs)) = 4 * length xs"
  by (induction xs) simp_all

subsection \<open>Upsampling in \<open>read\<close>\<close>

text \<open>
  C8. With an audio session and the extended format (16 kHz, 16 bit), \<open>read\<close> returns,
  for every byte sequence \<open>data\<close> received on the audio socket, an output four times as
  long, and the four bytes that stand for input byte \<open>i\<close> decode, as two little-endian
  signed 16-bit samples, to \<open>(v * 256, v * 256)\<close> where \<open>v\<close> is the sign-extended
  input byte. No \<open>struct.pack\<close> of the loop raises.
\<close>

theorem read_extended_upsamples:
  assumes "audio st \<noteq> None" and "sco_payload st = Some payload"
    and "format = AUDIO_16KHZ_SIGNED_16BIT_LE_MONO"
  shows "\<exists>out. read st format (ScoData data) = Inr (Some out)
           \<and> length out = 4 * length data
           \<and> (\<forall>i < length data.
                 unpack_h (out ! (4 * i)) (out ! (4 * i + 1)) = sint (data ! i) * 256
               \<and> unpack_h (out ! (4 * i + 2)) (out ! (4 * i + 3)) = sint (data ! i) * 256)"
proof -
  let ?out = "concat (map (\<lambda>b. [0, b, 0, b]) data)"
  have "read st format (ScoData data) = Inr (Some ?out)"
    using assms
    by (simp add: read_def upsample_eq AUDIO_16KHZ_SIGNED_16BIT_LE_MONO_def
        AUDIO_8KHZ_SIGNED_8BIT_MONO_def)
  moreover have "length ?out = 4 * length data"
    by (rule length_concat4)
  moreover have "unpack_h (?out ! (4 * i)) (?out ! (4 * i + 1)) = sint (data ! i) * 256
      \<and> unpack_h (?out ! (4 * i + 2)) (?out ! (4 * i + 3)) = sint (data ! i) * 256"
    if "i < length data" for i
    using nth_concat4 [OF that, of "\<lambda>b. 0" "\<lambda>b. b" "\<lambda>b. 0" "\<lambda>b. b"]
    by (simp add: unpack_h_scaled)
  ultimately show ?thesis by blast
qed

theorem read_extended_upsamples_witness:
  "read \<lparr>pt = True, audio = Some (SCO 64), hfp = Some (RFCOMM 3), channel = Some 3,
      sco_payload = Some 48, trace = []\<rparr> 1 (ScoData [0x7F, 0x80])
     = Inr (Some [0x00, 0x7F, 0x00, 0x7F, 0x00, 0x80, 0x00, 0x80])
   \<and> unpack_h 0x00 0x80 = - 32768 \<and> unpack_h 0x00 0x7F = 32512"
  using read_extended_upsamples [of "\<lparr>pt = True, audio = Some (SCO 64), hfp = Some (RFCOMM 3),
      channel = Some 3, sco_payload = Some 48, trace = []\<rparr>" 48 1 "[0x7F, 0x80]"]
  by (simp add: AUDIO_16KHZ_SIGNED_16BIT_LE_MONO_def read_def AUDIO_8KHZ_SIGNED_8BIT_MONO_def
      pack_hh_def pack_h_def unpack_h_def)

subsection \<open>Downsampling in \<open>write\<close>\<close>

lemma py_round_div_512:
  "py_round (real_of_int s / 512) =
     (if s mod 512 < 256 then s div 512
      else if 256 < s mod 512 then s div 512 + 1
      else if even (s div 512) then s div 512 else s div 512 + 1)"
proof -
  define q r where "q = s div 512" and "r = s mod 512"
  have fl: "\<lfloor>real_of_int s / 512\<rfloor> = q"
    using floor_divide_of_int_eq [of s 512, where ?'a = real] by (simp add: q_def)
  have "s = 512 * q + r"
    by (simp add: q_def r_def)
  then have e: "real_of_int s = 512 * real_of_int q + real_of_int r"
    by simp
  have d: "real_of_int s / 512 - real_of_int q = real_of_int r / 512"
    by (simp add: e field_simps)
  have lt: "real_of_int r / 512 < 1 / 2 \<longleftrightarrow> r < 256"
    by (simp add: field_simps) linarith?
  have gt: "1 / 2 < real_of_int r / 512 \<longleftrightarrow> 256 < r"
    by (simp add: field_simps) linarith?
  have "py_round (real_of_int s / 512) =
     (if r < 256 then q else if 256 < r then q + 1 else if even q then q else q + 1)"
    unfolding py_round_def Let_def fl d lt gt by simp
  then show ?thesis by (simp only: q_def r_def)
qed

lemma unpack_h_range: "- 32768 \<le> unpack_h lo hi \<and> unpack_h lo hi \<le> 32767"
proof -
  define a c where "a = uint lo" and "c = uint hi"
  have "0 \<le> a" "a < 256" "0 \<le> c" "c < 256"
    using uint_lt2p [of lo] uint_lt2p [of hi] by (simp_all add: a_def c_def)
  then have "- 32768 \<le> (let u = a + 256 * c in if 32768 \<le> u then u - 65536 else u)
     \<and> (let u = a + 256 * c in if 32768 \<le> u then u - 65536 else u) \<le> 32767"
    by (auto simp: Let_def)
  then show ?thesis by (simp only: unpack_h_def a_def c_def)
qed

lemma round_512_range:
  assumes "- 65536 \<le> s" "s \<le> 65534"
  shows "- 128 \<le> py_round (real_of_int s / 512)"
    and "py_round (real_of_int s / 512) \<le> 127 \<longleftrightarrow> s < 65280"
proof -
  define q r where "q = s div 512" and "r = s mod 512"
  have s: "s = 512 * q + r" by (simp add: q_def r_def)
  have r: "0 \<le> r" "r < 512" by (simp_all add: r_def)
  have v: "py_round (real_of_int s / 512) =
     (if r < 256 then q else if 256 < r then q + 1 else if even q then q else q + 1)"
    by (simp only: py_round_div_512 q_def r_def)
  have q: "- 128 \<le> q" "q \<le> 127" using assms s r by linarith+
  show "- 128 \<le> py_round (real_of_int s / 512)"
    unfolding v using q by auto
  have odd: "even q \<Longrightarrow> q \<le> 126" using q by (cases "q = 127") auto
  show "py_round (real_of_int s / 512) \<le> 127 \<longleftrightarrow> s < 65280"
    unfolding v using q r odd s by (auto; linarith)
qed


lemma group_sum_0:
  "group_sum (b0 # b1 # b2 # b3 # rest) 0 = unpack_h b0 b1 + unpack_h b2 b3"
  by (simp add: group_sum_def)

lemma group_sum_Suc:
  "group_sum (b0 # b1 # b2 # b3 # rest) (Suc k) = group_sum rest k"
proof -
  have e: "4 * Suc k = Suc (Suc (Suc (Suc (4 * k))))" by simp
  show ?thesis unfolding group_sum_def e by (simp add: add.commute)
qed

lemma group_sum_range: "- 65536 \<le> unpack_h b0 b1 + unpack_h b2 b3 \<and> unpack_h b0 b1 + unpack_h b2 b3 \<le> 65534"
  using unpack_h_range [of b0 b1] unpack_h_range [of b2 b3] by linarith

lemma pack_b_round:
  "pack_b (py_round (real_of_int (unpack_h b0 b1 + unpack_h b2 b3) / 512)) =
     (if unpack_h b0 b1 + unpack_h b2 b3 < 65280
      then Inr [word_of_int (py_round (real_of_int (unpack_h b0 b1 + unpack_h b2 b3) / 512))]
      else Inl StructError)"
  using round_512_range [of "unpack_h b0 b1 + unpack_h b2 b3"] group_sum_range [of b0 b1 b2 b3]
  by (simp add: pack_b_def)

lemma downsample_group:
  "downsample (b0 # b1 # b2 # b3 # rest) =
     (if unpack_h b0 b1 + unpack_h b2 b3 < 65280
      then (case downsample rest of
              Inl e \<Rightarrow> Inl e
            | Inr r \<Rightarrow>
                Inr (word_of_int (py_round (real_of_int (unpack_h b0 b1 + unpack_h b2 b3) / 512)) # r))
      else Inl StructError)"
  by (simp add: pack_b_round Let_def del: of_int_add split: sum.splits)

lemma short_not_groups:
  "Suc 0 \<noteq> 4 * n" "Suc (Suc 0) \<noteq> 4 * n" "Suc (Suc (Suc 0)) \<noteq> 4 * n"
  by presburger+

lemma downsample_Inr_iff:
  "downsample data = Inr out \<longleftrightarrow>
     length data = 4 * length out
     \<and> (\<forall>k < length out. group_sum data k < 65280
           \<and> out ! k = word_of_int (py_round (real_of_int (group_sum data k) / 512)))"
proof (induction data arbitrary: out rule: downsample.induct)
  case 1
  then show ?case by auto
next
  case (2 b0 b1 b2 b3 rest)
  let ?s = "unpack_h b0 b1 + unpack_h b2 b3"
  let ?v = "word_of_int (py_round (real_of_int ?s / 512)) :: byte"
  let ?data = "b0 # b1 # b2 # b3 # rest"
  show ?case
  proof (cases "?s < 65280")
    case False
    then have "downsample ?data = Inl StructError"
      by (simp only: downsample_group if_False)
    moreover have "\<not> (length ?data = 4 * length out
     \<and> (\<forall>k < length out. group_sum ?data k < 65280
           \<and> out ! k = word_of_int (py_round (real_of_int (group_sum ?data k) / 512))))"
    proof
      assume a: "length ?data = 4 * length out
     \<and> (\<forall>k < length out. group_sum ?data k < 65280
           \<and> out ! k = word_of_int (py_round (real_of_int (group_sum ?data k) / 512)))"
      then have "0 < length out" by auto
      with a have "group_sum ?data 0 < 65280" by blast
      with False show False by (simp add: group_sum_0)
    qed
    ultimately show ?thesis by simp
  next
    case True
    have pk: "pack_b (py_round (real_of_int ?s / 512)) = Inr [?v]"
      unfolding pack_b_round using True by simp
    have ih: "downsample rest = Inr r \<longleftrightarrow>
       length rest = 4 * length r
       \<and> (\<forall>k < length r. group_sum rest k < 65280
           \<and> r ! k = word_of_int (py_round (real_of_int (group_sum rest k) / 512)))" for r
      by (rule "2.IH" [OF refl refl refl pk])
    have ds: "downsample ?data =
        (case downsample rest of Inl e \<Rightarrow> Inl e | Inr r \<Rightarrow> Inr (?v # r))"
      using True by (simp only: downsample_group if_True)
    show ?thesis
    proof (cases out)
      case Nil
      have "downsample ?data \<noteq> Inr []"
        unfolding ds by (simp split: sum.splits)
      then show ?thesis using Nil by simp
    next
      case (Cons v r)
      have "downsample ?data = Inr (v # r) \<longleftrightarrow> v = ?v \<and> downsample rest = Inr r"
        unfolding ds by (auto split: sum.splits)
      then show ?thesis
        unfolding Cons ih using True
        by (auto simp: All_less_Suc2 group_sum_0 group_sum_Suc)
    qed
  qed
qed (auto simp: short_not_groups)

lemma downsample_Inl: "downsample data = Inl e \<Longrightarrow> e = StructError"
proof (induction data arbitrary: e rule: downsample.induct)
  case 1
  then show ?case by simp
next
  case (2 b0 b1 b2 b3 rest)
  let ?s = "unpack_h b0 b1 + unpack_h b2 b3"
  show ?case
  proof (cases "?s < 65280")
    case False
    with "2.prems" show ?thesis by (simp only: downsample_group if_False) simp
  next
    case True
    have pk: "pack_b (py_round (real_of_int ?s / 512))
        = Inr [word_of_int (py_round (real_of_int ?s / 512))]"
      unfolding pack_b_round using True by simp
    from "2.prems" True have "downsample rest = Inl e"
      by (simp only: downsample_group if_True split: sum.splits) simp
    then show ?thesis by (rule "2.IH" [OF refl refl refl pk])
  qed
qed simp_all






lemma downsample_bad:
  assumes "\<not> (length data mod 4 = 0 \<and> (\<forall>k < length data div 4. group_sum data k < 65280))"
  shows "downsample data = Inl StructError"
proof -
  have "downsample data \<noteq> Inr out" for out
  proof
    assume "downsample data = Inr out"
    then have "length data = 4 * length out
     \<and> (\<forall>k < length out. group_sum data k < 65280
           \<and> out ! k = word_of_int (py_round (real_of_int (group_sum data k) / 512)))"
      by (rule iffD1 [OF downsample_Inr_iff])
    then have "length data mod 4 = 0 \<and> (\<forall>k < length data div 4. group_sum data k < 65280)"
      by simp
    with assms show False by simp
  qed
  then obtain e where "downsample data = Inl e"
    by (cases "downsample data") auto
  then show ?thesis
    using downsample_Inl by blast
qed

text \<open>
  On every other input (a trailing group of one to three bytes, or a group with
  \<open>v1 + v2 \<ge> 65280\<close>, whose rounded value is 128) the conversion raises
  \<open>struct.error\<close>, which \<open>write\<close> does not catch.
\<close>

lemma write_extended_raises_otherwise:
  assumes "audio st \<noteq> None" and "format = AUDIO_16KHZ_SIGNED_16BIT_LE_MONO"
    and "\<not> (length data mod 4 = 0 \<and> (\<forall>k < length data div 4. group_sum data k < 65280))"
  shows "write_audio st data format sends = Some (Inl StructError)"
  using assms(1,2) downsample_bad [OF assms(3)]
  by (auto simp: write_audio_def AUDIO_16KHZ_SIGNED_16BIT_LE_MONO_def
      AUDIO_8KHZ_SIGNED_8BIT_MONO_def)




subsection \<open>Invariants of the AT loop\<close>

text \<open>
  The AT loop changes the state only by sending on the control socket, by the warning and
  by \<open>_connect_audio\<close>: what these three keep, the loop keeps, whether it returns or
  raises.
\<close>

lemma send_eq:
  "send data (k, st) =
     (if \<not> utf8_valid data then Inl (UnicodeDecodeError, st)
      else if k = 0 then Inl (BluetoothError, st)
      else Inr (k - 1, emit (SendHFP data) st))"
  by (cases k) (simp_all add: send_def)

lemma dispatch_invariant:
  assumes "\<And>d s. P s \<Longrightarrow> P (emit (SendHFP d) s)"
    and "\<And>r s. P s \<Longrightarrow> P (connect_audio r s)" and "P st"
  shows "P (case dispatch d sco n (k, st) of Inl (e, s) \<Rightarrow> s | Inr (n', k', s) \<Rightarrow> s)"
  using assms
  by (simp add: dispatch_def and_then_def send_at_def send_ok_def send_error_def send_eq)

lemma try_audio_anyway_invariant:
  assumes "\<And>s. P s \<Longrightarrow> P (emit Warning s)"
    and "\<And>r s. P s \<Longrightarrow> P (connect_audio r s)" and "P st"
  shows "P (snd (try_audio_anyway env t n st))"
  using assms by (simp add: try_audio_anyway_def)

lemma parse_iteration_invariant:
  assumes S: "\<And>d s. P s \<Longrightarrow> P (emit (SendHFP d) s)"
    and W: "\<And>s. P s \<Longrightarrow> P (emit Warning s)"
    and C: "\<And>r s. P s \<Longrightarrow> P (connect_audio r s)" and st: "P st"
  shows "P (case parse_iteration env t n st of Inl (e, s) \<Rightarrow> s | Inr (n', s) \<Rightarrow> s)"
proof (cases "read_at (recv_result env)")
  case (Inl e)
  then show ?thesis using st by (simp add: parse_iteration_def)
next
  case (Inr data)
  define m where "m =
    (case data of
       None \<Rightarrow> Inr (n, sends_accepted env, st)
     | Some d \<Rightarrow>
         if d \<noteq> [] then dispatch d (sco_at_cmer env) n (sends_accepted env, st)
         else Inr (n, sends_accepted env, st))"
  have m: "P (case m of Inl (e, s) \<Rightarrow> s | Inr (n', k', s) \<Rightarrow> s)"
    unfolding m_def
    using dispatch_invariant [of P st _ "sco_at_cmer env" n "sends_accepted env", OF S C st] st
    by (cases data) auto
  have p: "parse_iteration env t n st =
      and_then m (\<lambda>(n', k', s). Inr (try_audio_anyway env t n' s))"
    by (simp add: parse_iteration_def Inr m_def)
  show ?thesis
  proof (cases m)
    case (Inl raised)
    then show ?thesis using m by (cases raised) (simp add: p and_then_def)
  next
    case (Inr ok)
    obtain n' k' s where ok: "ok = (n', k', s)" by (cases ok) auto
    from m Inr ok have "P s" by simp
    from try_audio_anyway_invariant [of P s env t n', OF W C this] show ?thesis
      by (cases "try_audio_anyway env t n' s") (simp add: p Inr ok and_then_def)
  qed
qed

lemma parse_loop_invariant:
  assumes S: "\<And>d s. P s \<Longrightarrow> P (emit (SendHFP d) s)"
    and W: "\<And>s. P s \<Longrightarrow> P (emit Warning s)"
    and C: "\<And>r s. P s \<Longrightarrow> P (connect_audio r s)" and st: "P st"
  shows "P (case parse_loop envs t n st of Inl (e, s) \<Rightarrow> s | Inr s \<Rightarrow> s)"
  using st
proof (induction envs arbitrary: n st)
  case Nil
  then show ?case by simp
next
  case (Cons env envs)
  have it: "P (case parse_iteration env t n st of Inl (e, s) \<Rightarrow> s | Inr (n', s) \<Rightarrow> s)"
    using parse_iteration_invariant [of P st env t n, OF S W C Cons.prems] .
  show ?case
  proof (cases "parse_iteration env t n st")
    case (Inl raised)
    then show ?thesis using it by (cases raised) simp
  next
    case (Inr ok)
    obtain n' s where ok: "ok = (n', s)" by (cases ok) auto
    have "P s" using it Inr ok by simp
    then show ?thesis using Cons.IH [of s n'] by (simp add: Inr ok)
  qed
qed

subsection \<open>Channel resolution\<close>

lemma class_constants_distinct:
  "lower HANDSFREE_CLASS \<noteq> lower HEADSET_CLASS"
  "lower HANDSFREE_CLASS \<noteq> lower GENERIC_AUDIO_CLASS"
  "lower HEADSET_CLASS \<noteq> lower GENERIC_AUDIO_CLASS"
  by (simp_all add: HANDSFREE_CLASS_def HEADSET_CLASS_def GENERIC_AUDIO_CLASS_def lower_def
      lower_char_def)

lemma scan_classes_list:
  "scan_classes port cs (h, g) =
     (if lower HANDSFREE_CLASS \<in> set (map lower cs) then Inl port
      else Inr (if lower HEADSET_CLASS \<in> set (map lower cs) then Some port else h,
                if lower GENERIC_AUDIO_CLASS \<in> set (map lower cs) then Some port else g))"
  using class_constants_distinct
  by (induction cs arbitrary: h g) auto

lemma scan_classes_eq:
  "scan_classes (snd svc) (fst svc) (h, g) =
     (if has_class HANDSFREE_CLASS svc then Inl (snd svc)
      else Inr (if has_class HEADSET_CLASS svc then Some (snd svc) else h,
                if has_class GENERIC_AUDIO_CLASS svc then Some (snd svc) else g))"
  unfolding has_class_def by (rule scan_classes_list)

lemma remembered_Nil: "remembered K [] acc = acc"
  by (simp add: remembered_def)

lemma remembered_Cons:
  "remembered K (svc # svcs) acc =
     remembered K svcs (if has_class K svc then Some (snd svc) else acc)"
  by (simp add: remembered_def)

lemma scan_services_eq:
  "scan_services svcs (h, g) =
     (case find (has_class HANDSFREE_CLASS) svcs of
        Some svc \<Rightarrow> Some (snd svc)
      | None \<Rightarrow>
          (if truthy (remembered HEADSET_CLASS svcs h) then remembered HEADSET_CLASS svcs h
           else remembered GENERIC_AUDIO_CLASS svcs g))"
proof (induction svcs arbitrary: h g)
  case Nil
  then show ?case by (simp add: remembered_Nil)
next
  case (Cons svc svcs)
  show ?case
  proof (cases "has_class HANDSFREE_CLASS svc")
    case True
    then show ?thesis by (simp add: scan_classes_eq)
  next
    case False
    then show ?thesis
      by (simp add: scan_classes_eq Cons.IH remembered_Cons split: option.splits)
  qed
qed

lemma find_channel_eq:
  "find_channel svcs =
     (case find (has_class HANDSFREE_CLASS) svcs of
        Some svc \<Rightarrow> Some (snd svc)
      | None \<Rightarrow>
          (let hs = filter (has_class HEADSET_CLASS) svcs;
               gs = filter (has_class GENERIC_AUDIO_CLASS) svcs
           in if hs \<noteq> [] \<and> snd (last hs) \<noteq> 0 then Some (snd (last hs))
              else if gs \<noteq> [] then Some (snd (last gs))
              else None))"
  by (simp add: find_channel_def scan_services_eq remembered_def truthy_def Let_def
      split: option.splits)


subsection \<open>Control connections in the trace\<close>

lemma rfcomm_channels_append:
  "rfcomm_channels (xs @ ys) = rfcomm_channels xs @ rfcomm_channels ys"
  by (induction xs rule: rfcomm_channels.induct) simp_all

lemma rfcomm_emit:
  "rfcomm_channels (trace (emit ev st)) =
     rfcomm_channels (trace st) @ (case ev of ConnectRFCOMM ch \<Rightarrow> [ch] | _ \<Rightarrow> [])"
  by (cases ev) (simp_all add: emit_def rfcomm_channels_append)

lemma rfcomm_connect_audio:
  "rfcomm_channels (trace (connect_audio r st)) = rfcomm_channels (trace st)"
  by (cases r) (simp_all add: connect_audio_def rfcomm_emit)

lemma rfcomm_parse_loop:
  "rfcomm_channels (trace (case parse_loop envs t n st of Inl (e, s) \<Rightarrow> s | Inr s \<Rightarrow> s))
     = rfcomm_channels (trace st)"
  by (rule parse_loop_invariant
        [of "\<lambda>s. rfcomm_channels (trace s) = rfcomm_channels (trace st)", OF _ _ _ refl])
    (simp_all add: rfcomm_emit rfcomm_connect_audio)

lemma rfcomm_cleanup:
  "rfcomm_channels (trace (cleanup st)) = rfcomm_channels (trace st)"
  by (simp add: cleanup_def Let_def rfcomm_emit)

lemma rfcomm_worker_iteration:
  "\<exists>chs. rfcomm_channels (trace (case worker_iteration env st of Inl (e, s) \<Rightarrow> s | Inr s \<Rightarrow> s))
       = rfcomm_channels (trace st) @ chs \<and> 0 \<notin> set chs"
proof (cases "find_channel (services env)")
  case None
  then show ?thesis by (simp add: worker_iteration_def rfcomm_emit)
next
  case (Some ch)
  show ?thesis
  proof (cases "ch = 0")
    case True
    then show ?thesis using Some by (simp add: worker_iteration_def rfcomm_emit)
  next
    case False
    define st1 where
      "st1 = connect_service_level (rfcomm_accepted env) ch (st\<lparr>channel := Some ch\<rparr>)"
    have c: "rfcomm_channels (trace st1) = rfcomm_channels (trace st) @ [ch]"
      by (simp add: st1_def connect_service_level_def Let_def rfcomm_emit)
    define res where "res = parse_channel (session_start env) (at_turns env) st1"
    have r: "rfcomm_channels (trace (case res of Inl (e, s) \<Rightarrow> s | Inr s \<Rightarrow> s))
        = rfcomm_channels (trace st) @ [ch]"
      unfolding res_def parse_channel_def using rfcomm_parse_loop c by simp
    have w: "worker_iteration env st =
        (if hfp st1 = None then Inr (emit Sleep st1)
         else (case res of
                 Inl (e, st') \<Rightarrow>
                   if e = BluetoothError then Inr (cleanup (emit Sleep st')) else Inl (e, st')
               | Inr st' \<Rightarrow> Inr (cleanup st')))"
      using Some False by (simp add: worker_iteration_def Let_def st1_def res_def)
    have "rfcomm_channels (trace (case worker_iteration env st of Inl (e, s) \<Rightarrow> s | Inr s \<Rightarrow> s))
       = rfcomm_channels (trace st) @ [ch]"
    proof (cases "hfp st1 = None")
      case True
      then show ?thesis by (simp add: w rfcomm_emit c)
    next
      case hf: False
      show ?thesis
      proof (cases res)
        case (Inl raised)
        obtain e s where raised: "raised = (e, s)" by (cases raised) auto
        from r Inl raised have "rfcomm_channels (trace s) = rfcomm_channels (trace st) @ [ch]"
          by simp
        then show ?thesis using hf by (auto simp: w Inl raised rfcomm_cleanup rfcomm_emit)
      next
        case (Inr s)
        with r have "rfcomm_channels (trace s) = rfcomm_channels (trace st) @ [ch]" by simp
        then show ?thesis using hf by (auto simp: w Inr rfcomm_cleanup)
      qed
    qed
    then show ?thesis using False by simp
  qed
qed

lemma rfcomm_worker_loop:
  "\<exists>chs. rfcomm_channels (trace (case worker_loop envs st of Inl (e, s) \<Rightarrow> s | Inr s \<Rightarrow> s))
       = rfcomm_channels (trace st) @ chs \<and> 0 \<notin> set chs"
proof (induction envs arbitrary: st)
  case Nil
  then show ?case by simp
next
  case (Cons env envs)
  obtain chs where chs:
    "rfcomm_channels (trace (case worker_iteration env st of Inl (e, s) \<Rightarrow> s | Inr s \<Rightarrow> s))
       = rfcomm_channels (trace st) @ chs" "0 \<notin> set chs"
    using rfcomm_worker_iteration by blast
  show ?case
  proof (cases "worker_iteration env st")
    case (Inl raised)
    then show ?thesis using chs by (cases raised) auto
  next
    case (Inr st')
    obtain chs' where
      "rfcomm_channels (trace (case worker_loop envs st' of Inl (e, s) \<Rightarrow> s | Inr s \<Rightarrow> s))
       = rfcomm_channels (trace st') @ chs'" "0 \<notin> set chs'"
      using Cons.IH by blast
    then show ?thesis using chs Inr by auto
  qed
qed


subsection \<open>The resolved channel\<close>

text \<open>
  C5, as amended. For every list of service records, \<open>_find_channel\<close> leaves in
  \<open>self.channel\<close> the port of the first record that has the Handsfree class, if any
  record has it, wherever it stands in the list; otherwise the port of the last record with
  the Headset class, if there is one and that port is not 0; otherwise the port of the last
  record with the GenericAudio class, if there is one; otherwise \<open>None\<close>.
\<close>

theorem find_channel_priority:
  "find_channel svcs =
     (case find (has_class HANDSFREE_CLASS) svcs of
        Some svc \<Rightarrow> Some (snd svc)
      | None \<Rightarrow>
          (let hs = filter (has_class HEADSET_CLASS) svcs;
               gs = filter (has_class GENERIC_AUDIO_CLASS) svcs
           in if hs \<noteq> [] \<and> snd (last hs) \<noteq> 0 then Some (snd (last hs))
              else if gs \<noteq> [] then Some (snd (last gs))
              else None))"
proof -
  have "find_channel svcs =
     (case find (has_class HANDSFREE_CLASS) svcs of
        Some svc \<Rightarrow> Some (snd svc)
      | None \<Rightarrow>
          (if truthy (remembered HEADSET_CLASS svcs None) then remembered HEADSET_CLASS svcs None
           else remembered GENERIC_AUDIO_CLASS svcs None))"
    unfolding find_channel_def by (rule scan_services_eq)
  then show ?thesis
    by (simp add: remembered_def truthy_def Let_def split: option.splits)
qed

theorem find_channel_priority_witness:
  "find_channel [([GENERIC_AUDIO_CLASS], 5)] = Some 5
   \<and> find_channel [([HEADSET_CLASS], 3), ([HANDSFREE_CLASS], 7)] = Some 7
   \<and> find_channel [([HANDSFREE_CLASS], 7), ([HEADSET_CLASS], 3)] = Some 7
   \<and> find_channel [([''110b''], 25)] = None"
  using find_channel_priority [of "[([GENERIC_AUDIO_CLASS], 5)]"]
    find_channel_priority [of "[([HEADSET_CLASS], 3), ([HANDSFREE_CLASS], 7)]"]
    find_channel_priority [of "[([HANDSFREE_CLASS], 7), ([HEADSET_CLASS], 3)]"]
    find_channel_priority [of "[([''110b''], 25)]"]
  by (simp add: has_class_def HANDSFREE_CLASS_def HEADSET_CLASS_def GENERIC_AUDIO_CLASS_def
      lower_def lower_char_def)

text \<open>
  C5 as stated fails: with a Headset record of port 0 and a GenericAudio record of port 5
  the specification's resolution gives the Headset channel 0, the code gives 5.
\<close>

theorem headset_port_zero_skipped:
  "find_channel [([HEADSET_CLASS], 0), ([GENERIC_AUDIO_CLASS], 5)] = Some 5
   \<and> spec_channel [([HEADSET_CLASS], 0), ([GENERIC_AUDIO_CLASS], 5)] = Some 0"
  by (simp add: find_channel_def spec_channel_def truthy_def has_class_def HANDSFREE_CLASS_def
      HEADSET_CLASS_def GENERIC_AUDIO_CLASS_def lower_def lower_char_def)

text \<open>
  C10. When the scan selects channel 0, a turn of the worker loop does what it does when
  no channel is found: it sleeps and the next turn resolves again. No run of the worker
  loop attempts a control connection on channel 0. When no record has the Handsfree class
  and the last Headset record has port 0, the result is the GenericAudio channel, or
  \<open>None\<close> when there is none; a GenericAudio record of port 0 that is selected gives
  channel 0, which the first part treats as no channel.
\<close>

theorem channel_zero_is_no_channel:
  "(find_channel (services env) = Some 0 \<longrightarrow>
      worker_iteration env st = Inr (emit Sleep (st\<lparr>channel := Some 0\<rparr>))
      \<and> worker_iteration (env\<lparr>services := []\<rparr>) st = Inr (emit Sleep (st\<lparr>channel := None\<rparr>))
      \<and> worker_loop (env # envs) st = worker_loop envs (emit Sleep (st\<lparr>channel := Some 0\<rparr>)))
   \<and> (\<exists>chs. rfcomm_channels (trace (case worker_loop envs st of Inl (e, s) \<Rightarrow> s | Inr s \<Rightarrow> s))
              = rfcomm_channels (trace st) @ chs \<and> 0 \<notin> set chs)
   \<and> (find (has_class HANDSFREE_CLASS) svcs = None
        \<and> filter (has_class HEADSET_CLASS) svcs \<noteq> []
        \<and> snd (last (filter (has_class HEADSET_CLASS) svcs)) = 0 \<longrightarrow>
      find_channel svcs =
        (if filter (has_class GENERIC_AUDIO_CLASS) svcs \<noteq> []
         then Some (snd (last (filter (has_class GENERIC_AUDIO_CLASS) svcs))) else None))
   \<and> (find (has_class HANDSFREE_CLASS) svcs = None
        \<and> filter (has_class HEADSET_CLASS) svcs = []
        \<and> filter (has_class GENERIC_AUDIO_CLASS) svcs \<noteq> []
        \<and> snd (last (filter (has_class GENERIC_AUDIO_CLASS) svcs)) = 0 \<longrightarrow>
      find_channel svcs = Some 0)"
proof (intro conjI impI)
  assume z: "find_channel (services env) = Some 0"
  show w: "worker_iteration env st = Inr (emit Sleep (st\<lparr>channel := Some 0\<rparr>))"
    using z by (simp add: worker_iteration_def)
  show "worker_iteration (env\<lparr>services := []\<rparr>) st = Inr (emit Sleep (st\<lparr>channel := None\<rparr>))"
    by (simp add: worker_iteration_def find_channel_def truthy_def)
  show "worker_loop (env # envs) st = worker_loop envs (emit Sleep (st\<lparr>channel := Some 0\<rparr>))"
    by (simp add: w)
next
  show "\<exists>chs. rfcomm_channels (trace (case worker_loop envs st of Inl (e, s) \<Rightarrow> s | Inr s \<Rightarrow> s))
              = rfcomm_channels (trace st) @ chs \<and> 0 \<notin> set chs"
    by (rule rfcomm_worker_loop)
next
  assume "find (has_class HANDSFREE_CLASS) svcs = None
        \<and> filter (has_class HEADSET_CLASS) svcs \<noteq> []
        \<and> snd (last (filter (has_class HEADSET_CLASS) svcs)) = 0"
  then show "find_channel svcs =
        (if filter (has_class GENERIC_AUDIO_CLASS) svcs \<noteq> []
         then Some (snd (last (filter (has_class GENERIC_AUDIO_CLASS) svcs))) else None)"
    by (simp add: find_channel_eq)
next
  assume "find (has_class HANDSFREE_CLASS) svcs = None
        \<and> filter (has_class HEADSET_CLASS) svcs = []
        \<and> filter (has_class GENERIC_AUDIO_CLASS) svcs \<noteq> []
        \<and> snd (last (filter (has_class GENERIC_AUDIO_CLASS) svcs)) = 0"
  then show "find_channel svcs = Some 0"
    by (simp add: find_channel_eq)
qed

theorem channel_zero_is_no_channel_witness:
  "find_channel [([HANDSFREE_CLASS], 0)] = Some 0
   \<and> worker_iteration \<lparr>services = [([HANDSFREE_CLASS], 0)], rfcomm_accepted = True,
        session_start = 0, at_turns = []\<rparr>
        \<lparr>pt = True, audio = None, hfp = None, channel = None, sco_payload = None, trace = []\<rparr>
      = Inr \<lparr>pt = True, audio = None, hfp = None, channel = Some 0, sco_payload = None,
          trace = [Sleep]\<rparr>
   \<and> find_channel [([HEADSET_CLASS], 0), ([GENERIC_AUDIO_CLASS], 5)] = Some 5
   \<and> find_channel [([GENERIC_AUDIO_CLASS], 0)] = Some 0"
  using channel_zero_is_no_channel [of
      "\<lparr>services = [([HANDSFREE_CLASS], 0)], rfcomm_accepted = True,
        session_start = 0, at_turns = []\<rparr>"
      "\<lparr>pt = True, audio = None, hfp = None, channel = None, sco_payload = None, trace = []\<rparr>"
      "[]" "[([HEADSET_CLASS], 0), ([GENERIC_AUDIO_CLASS], 5)]"]
    channel_zero_is_no_channel [of
      "\<lparr>services = [([HANDSFREE_CLASS], 0)], rfcomm_accepted = True,
        session_start = 0, at_turns = []\<rparr>"
      "\<lparr>pt = True, audio = None, hfp = None, channel = None, sco_payload = None, trace = []\<rparr>"
      "[]" "[([GENERIC_AUDIO_CLASS], 0)]"]
  by (simp add: find_channel_def truthy_def has_class_def HANDSFREE_CLASS_def HEADSET_CLASS_def
      GENERIC_AUDIO_CLASS_def lower_def lower_char_def emit_def)

subsection \<open>The AT dispatch\<close>




















subsection \<open>The audio connect that does not wait for \<open>AT+CMER\<close>\<close>
















subsection \<open>The payload size of an audio session\<close>

lemma session_inv_emit: "session_inv (emit ev st) = session_inv st"
  by (simp add: session_inv_def emit_def split: option.splits sco_socket.splits)

lemma session_inv_connect_audio: "session_inv st \<Longrightarrow> session_inv (connect_audio r st)"
  by (cases r)
    (simp_all add: connect_audio_def session_inv_def emit_def
      split: option.splits sco_socket.splits)

lemma session_inv_parse_loop:
  assumes "session_inv st"
  shows "session_inv (case parse_loop envs t n st of Inl (e, s) \<Rightarrow> s | Inr s \<Rightarrow> s)"
  by (rule parse_loop_invariant [of session_inv, OF _ _ _ assms])
    (simp_all add: session_inv_emit session_inv_connect_audio)

lemma session_inv_cleanup: "session_inv (cleanup st)"
  by (simp add: session_inv_def cleanup_def Let_def)

lemma session_inv_worker_iteration:
  assumes "session_inv st"
  shows "session_inv (case worker_iteration env st of Inl (e, s) \<Rightarrow> s | Inr s \<Rightarrow> s)"
proof -
  have c: "session_inv (s\<lparr>channel := ch\<rparr>) = session_inv s" for s ch
    by (simp add: session_inv_def split: option.splits sco_socket.splits)
  have h: "session_inv (connect_service_level a ch s) = session_inv s" for a ch s
    by (simp add: session_inv_def connect_service_level_def Let_def emit_def
        split: option.splits sco_socket.splits)
  show ?thesis
  proof (cases "find_channel (services env)")
    case None
    then show ?thesis using assms by (simp add: worker_iteration_def session_inv_emit c)
  next
    case (Some ch)
    define st1 where
      "st1 = connect_service_level (rfcomm_accepted env) ch (st\<lparr>channel := Some ch\<rparr>)"
    have i1: "session_inv st1" using assms by (simp add: st1_def h c)
    define res where "res = parse_channel (session_start env) (at_turns env) st1"
    have r: "session_inv (case res of Inl (e, s) \<Rightarrow> s | Inr s \<Rightarrow> s)"
      unfolding res_def parse_channel_def by (rule session_inv_parse_loop [OF i1])
    have w: "worker_iteration env st =
        (if ch = 0 then Inr (emit Sleep (st\<lparr>channel := Some ch\<rparr>))
         else if hfp st1 = None then Inr (emit Sleep st1)
         else (case res of
                 Inl (e, st') \<Rightarrow>
                   if e = BluetoothError then Inr (cleanup (emit Sleep st')) else Inl (e, st')
               | Inr st' \<Rightarrow> Inr (cleanup st')))"
      using Some by (simp add: worker_iteration_def Let_def st1_def res_def)
    show ?thesis
    proof (cases res)
      case (Inl raised)
      obtain e s where raised: "raised = (e, s)" by (cases raised) auto
      from r Inl raised have "session_inv s" by simp
      then show ?thesis
        using assms i1 by (simp add: w Inl raised session_inv_emit session_inv_cleanup c)
    next
      case (Inr s)
      then show ?thesis
        using assms i1 by (simp add: w session_inv_emit session_inv_cleanup c)
    qed
  qed
qed

lemma session_inv_worker_loop:
  assumes "session_inv st"
  shows "session_inv (case worker_loop envs st of Inl (e, s) \<Rightarrow> s | Inr s \<Rightarrow> s)"
  using assms
proof (induction envs arbitrary: st)
  case Nil
  then show ?case by simp
next
  case (Cons env envs)
  have it: "session_inv (case worker_iteration env st of Inl (e, s) \<Rightarrow> s | Inr s \<Rightarrow> s)"
    by (rule session_inv_worker_iteration [OF Cons.prems])
  show ?case
  proof (cases "worker_iteration env st")
    case (Inl raised)
    then show ?thesis using it by (cases raised) simp
  next
    case (Inr s)
    with it have "session_inv s" by simp
    from Cons.IH [OF this] show ?thesis by (simp add: Inr)
  qed
qed

lemma session_inv_init: "session_inv init_state"
  by (simp add: session_inv_def init_state_def)





subsection \<open>The tone of \<open>beep\<close>\<close>

lemma py_int_small:
  assumes "0 \<le> x" and "x < 1"
  shows "py_int x = 0"
  using assms by (simp add: py_int_def floor_eq_iff)

lemma beep_period_above_8000:
  assumes "8000 < frequency"
  shows "beep_period frequency = 0"
proof -
  have "0 \<le> 8000 / frequency" "8000 / frequency < 1"
    using assms by simp_all
  then show ?thesis unfolding beep_period_def by (rule py_int_small)
qed

lemma tone_period_zero: "is \<noteq> [] \<Longrightarrow> tone 0 amplitude is = Inl ZeroDivisionError"
  by (cases "is") simp_all

text \<open>
  C9. For every call of \<open>beep\<close> with a frequency above 8000 Hz and a length that
  gives at least one sample, in any state, with or without an audio session, the period
  is 0 and the first sample's \<open>i % period\<close> raises \<open>ZeroDivisionError\<close>; \<open>beep\<close>
  does not return \<open>False\<close>. (Floats are idealised as reals; \<open>int(8000 / frequency)\<close>
  is 0 for every float above 8000 as well.)
\<close>

theorem beep_above_8000_divides_by_zero:
  assumes "8000 < frequency" and "1 \<le> beep_length length_ms"
  shows "beep_period frequency = 0
       \<and> beep st length_ms frequency amplitude sends = Some (Inl ZeroDivisionError)"
proof -
  have p: "beep_period frequency = 0"
    by (rule beep_period_above_8000 [OF assms(1)])
  have "[0..<nat (beep_length length_ms)] \<noteq> []"
    using assms(2) by simp
  then have "tone 0 amplitude [0..<nat (beep_length length_ms)] = Inl ZeroDivisionError"
    by (rule tone_period_zero)
  then show ?thesis
    using assms(1) p by (simp add: beep_def Let_def)
qed

theorem beep_above_8000_divides_by_zero_witness:
  "(8000 :: real) < 9000 \<and> 1 \<le> beep_length 300 \<and> beep_period 9000 = 0
   \<and> beep init_state 300 9000 0.5 [] = Some (Inl ZeroDivisionError)
   \<and> write_audio init_state [] AUDIO_8KHZ_SIGNED_8BIT_MONO [] = Some (Inr (False, []))"
  using beep_above_8000_divides_by_zero [of 9000 300 init_state "0.5" "[]"]
  by (simp add: beep_length_def py_int_def write_audio_def init_state_def)















subsection \<open>What the public API raises\<close>


lemma send_frames_first_fails:
  assumes "sent < int (length data)"
  shows "send_frames (Some p) data (ScoSendFailed # sends) sent frames = Some (Inr (False, frames))"
  using assms by simp








end
